theory Spec2Isabelle
  imports Main "HOL-Library.Stream" "HOL-Library.Sublist"
begin

section \<open>IndexNow auto submitter: the environment\<close>

text \<open>
  The script \<^verbatim>\<open>indexnow_submitter.py\<close> talks to three things outside itself: the web
  (one GET per sitemap, one POST per submission attempt), the file system (the ledger
  \<^verbatim>\<open>submitted_urls.txt\<close> and the staging file \<^verbatim>\<open>urls_to_submit.txt\<close>) and the clock
  (\<^verbatim>\<open>time.sleep\<close>). They are gathered in one record that every function takes and
  returns. \<^verbatim>\<open>log_message\<close> only appends to the log file and prints; nothing in the
  script reads the log back, so the log is left out and \<^verbatim>\<open>log_message\<close> is taken to
  return normally.
\<close>

subsection \<open>Strings\<close>

text \<open>
  A Python \<^verbatim>\<open>str\<close> is modelled by \<^typ>\<open>string\<close>; a character is a code point below 256.
  \<^verbatim>\<open>isspace\<close> lists the code points in that range that \<^verbatim>\<open>str.strip()\<close> removes.
\<close>

definition LF :: char where
  "LF = CHR 0x0A"

definition CR :: char where
  "CR = CHR 0x0D"

definition isspace :: "char \<Rightarrow> bool" where
  "isspace c = (c \<in> {CHR 0x09, CHR 0x0A, CHR 0x0B, CHR 0x0C, CHR 0x0D,
                       CHR 0x1C, CHR 0x1D, CHR 0x1E, CHR 0x1F, CHR 0x20,
                       CHR 0x85, CHR 0xA0})"

definition strip :: "string \<Rightarrow> string" where
  "strip s = rev (dropWhile isspace (rev (dropWhile isspace s)))"

text \<open>
  \<^verbatim>\<open>s.replace(old, new)\<close> for a non-empty \<^verbatim>\<open>old\<close>: leftmost occurrences, not
  overlapping. The script only calls it with the two scheme prefixes.
\<close>

function replace :: "string \<Rightarrow> string \<Rightarrow> string \<Rightarrow> string" where
  "replace old new [] = []"
| "replace old new (c # cs) =
     (if old \<noteq> [] \<and> prefix old (c # cs)
      then new @ replace old new (drop (length old) (c # cs))
      else c # replace old new cs)"
  by pat_completeness auto
termination
  by (relation "measure (\<lambda>(old, new, s). length s)") (auto simp: Suc_diff_le)

subsection \<open>Configuration\<close>

text \<open>
  The three module constants that the user must edit. The endpoint and the three file
  names are fixed.
\<close>

record config =
  API_KEY :: string
  SITE_URL :: string
  SITEMAP_URL :: string

definition URLS_FILE :: string where
  "URLS_FILE = ''urls_to_submit.txt''"

definition SUBMITTED_URLS_FILE :: string where
  "SUBMITTED_URLS_FILE = ''submitted_urls.txt''"

subsection \<open>The web, the files and the clock\<close>

text \<open>
  An element as \<^verbatim>\<open>xml.etree.ElementTree\<close> builds it: the tag (a namespaced tag reads
  \<^verbatim>\<open>{uri}local\<close>), \<^verbatim>\<open>.text\<close>, the text before the first child (\<^verbatim>\<open>None\<close> when there is none), and
  the children in document order.
\<close>

datatype xml = Element (tag: string) (text_of: "string option") (children: "xml list")

text \<open>
  What \<^verbatim>\<open>ET.fromstring(response.text)\<close> makes of a response body: a \<^verbatim>\<open>ParseError\<close>
  or the root element. The parser itself is not part of the script.
\<close>

datatype body = Malformed | Doc xml

text \<open>The outcome of \<^verbatim>\<open>session.get\<close>: one of the exceptions the script catches, or a response.\<close>

datatype get_result =
    GetTimeout
  | GetConnectionError
  | GetException
  | GetResponse int body

text \<open>The outcome of \<^verbatim>\<open>session.post\<close>; only the status code of a response is branched on.\<close>

datatype post_result =
    PostTimeout
  | PostException
  | PostResponse int

text \<open>
  A file is absent, cannot be opened (any exception other than \<^verbatim>\<open>FileNotFoundError\<close>),
  or holds text.
\<close>

datatype file_state = Missing | Denied | Text string

record payload =
  host :: string
  key :: string
  keyLocation :: string
  urlList :: "string list"

text \<open>
  What the script does to the outside, in the order in which it does it: a GET of a URL,
  a POST of a payload, a pause of so many seconds.
\<close>

datatype event = Get string | Post payload | Sleep nat

text \<open>
  \<open>web\<close> answers a GET by its URL, with the same answer throughout a run;
  \<open>post_responses\<close> is the sequence of answers the endpoint will give to the POSTs
  still to come; \<open>trace\<close> records, oldest first, the requests sent and the pauses made.
\<close>

record world =
  web :: "string \<Rightarrow> get_result"
  post_responses :: "post_result stream"
  files :: "string \<Rightarrow> file_state"
  trace :: "event list"

definition session_get :: "string \<Rightarrow> world \<Rightarrow> get_result \<times> world" where
  "session_get url w = (web w url, w\<lparr>trace := trace w @ [Get url]\<rparr>)"

definition session_post :: "payload \<Rightarrow> world \<Rightarrow> post_result \<times> world" where
  "session_post p w =
     (shd (post_responses w),
      w\<lparr>post_responses := stl (post_responses w), trace := trace w @ [Post p]\<rparr>)"

definition sleep :: "nat \<Rightarrow> world \<Rightarrow> world" where
  "sleep secs w = w\<lparr>trace := trace w @ [Sleep secs]\<rparr>"

text \<open>The payloads posted, oldest first.\<close>

fun posted :: "event list \<Rightarrow> payload list" where
  "posted [] = []"
| "posted (Post p # es) = p # posted es"
| "posted (Get url # es) = posted es"
| "posted (Sleep secs # es) = posted es"

definition posts :: "world \<Rightarrow> payload list" where
  "posts w = posted (trace w)"

subsection \<open>The interpreter's recursion limit\<close>

text \<open>
  Python allows only so many nested calls (1000 frames unless the limit is changed); a
  call beyond the limit raises \<^verbatim>\<open>RecursionError\<close> in the caller. Both recursive functions
  of the script make their recursive call inside a \<^verbatim>\<open>try\<close> block whose last clause is
  \<^verbatim>\<open>except Exception\<close>, so the error is caught where it is raised. The two functions
  take as their first argument \<open>depth\<close>, the number of nested calls of themselves that
  the interpreter still allows; at depth 0 the recursive call raises. Which call of the
  deepest frame is the one that no longer fits depends on the library code below it and
  is not modelled.
\<close>

section \<open>Submission client\<close>

text \<open>
  \<^verbatim>\<open>submit_to_indexnow\<close>. The 429 branch waits five minutes and calls the function
  again, with the batch as it was truncated. Both \<^verbatim>\<open>except\<close> clauses return \<^verbatim>\<open>False\<close>;
  the second one also catches the \<^verbatim>\<open>RecursionError\<close> of a retry that no longer fits.
\<close>

definition make_payload :: "config \<Rightarrow> string list \<Rightarrow> payload" where
  "make_payload cfg urls =
     \<lparr>host = replace ''http://'' '''' (replace ''https://'' '''' (SITE_URL cfg)),
      key = API_KEY cfg,
      keyLocation = SITE_URL cfg @ ''/'' @ API_KEY cfg @ ''.txt'',
      urlList = urls\<rparr>"

fun submit_to_indexnow :: "nat \<Rightarrow> config \<Rightarrow> string list \<Rightarrow> world \<Rightarrow> bool \<times> world" where
  "submit_to_indexnow depth cfg urls w =
     (if urls = [] then (False, w)
      else
        let urls = (if length urls > 10000 then take 10000 urls else urls);
            payload = make_payload cfg urls
        in case session_post payload w of
             (PostTimeout, w1) \<Rightarrow> (False, w1)
           | (PostException, w1) \<Rightarrow> (False, w1)
           | (PostResponse status, w1) \<Rightarrow>
               if status = 200 \<or> status = 202 then (True, w1)
               else if status = 400 then (False, w1)
               else if status = 403 then (False, w1)
               else if status = 422 then (False, w1)
               else if status = 429 then
                 (let w2 = sleep 300 w1
                  in case depth of
                       0 \<Rightarrow> (False, w2)
                     | Suc deeper \<Rightarrow> submit_to_indexnow deeper cfg urls w2)
               else (False, w1))"

declare submit_to_indexnow.simps [simp del]

section \<open>Sitemap fetcher\<close>

text \<open>
  The namespace map of \<^verbatim>\<open>fetch_sitemap_urls\<close> binds the prefix \<^verbatim>\<open>sm\<close>; ElementTree
  expands \<^verbatim>\<open>sm:url\<close> to the tag \<^verbatim>\<open>{http://www.sitemaps.org/schemas/sitemap/0.9}url\<close>.
\<close>

definition sm :: "string \<Rightarrow> string" where
  "sm name = ''{http://www.sitemaps.org/schemas/sitemap/0.9}'' @ name"

text \<open>\<^verbatim>\<open>elem.findall(t)\<close> for a plain tag path: the direct children with that tag.\<close>

definition findall :: "string \<Rightarrow> xml \<Rightarrow> xml list" where
  "findall t elem = filter (\<lambda>c. tag c = t) (children elem)"

text \<open>\<^verbatim>\<open>elem.find(t)\<close>: the first such child, or \<^verbatim>\<open>None\<close>.\<close>

definition find_elem :: "string \<Rightarrow> xml \<Rightarrow> xml option" where
  "find_elem t elem = (case findall t elem of [] \<Rightarrow> None | c # _ \<Rightarrow> Some c)"

text \<open>
  The elements below a given one, in document order: what the path \<^verbatim>\<open>.//\<close> ranges
  over (the element itself is not among them).
\<close>

fun descendants :: "xml \<Rightarrow> xml list" where
  "descendants (Element t x cs) = concat (map (\<lambda>c. c # descendants c) cs)"

definition findall_descendants :: "string \<Rightarrow> xml \<Rightarrow> xml list" where
  "findall_descendants t elem = filter (\<lambda>c. tag c = t) (descendants elem)"

text \<open>
  The test and the value shared by the three loops:
  \<^verbatim>\<open>loc_elem is not None and loc_elem.text\<close>, then \<^verbatim>\<open>loc_elem.text.strip()\<close>. An empty
  text is falsy; a text of blanks only is not, and strips to the empty string.
\<close>

definition loc_text :: "string \<Rightarrow> xml \<Rightarrow> string option" where
  "loc_text loc_tag elem =
     (case find_elem loc_tag elem of
        None \<Rightarrow> None
      | Some loc_elem \<Rightarrow>
          (case text_of loc_elem of
             None \<Rightarrow> None
           | Some t \<Rightarrow> if t = [] then None else Some (strip t)))"

text \<open>The first loop, over \<^verbatim>\<open>root.findall('sm:url', namespaces)\<close>.\<close>

definition namespaced_urls :: "xml \<Rightarrow> string list" where
  "namespaced_urls root = List.map_filter (loc_text (sm ''loc'')) (findall (sm ''url'') root)"

text \<open>The fallback loop, over \<^verbatim>\<open>root.findall('.//url')\<close>.\<close>

definition plain_urls :: "xml \<Rightarrow> string list" where
  "plain_urls root = List.map_filter (loc_text ''loc'') (findall_descendants ''url'' root)"

text \<open>
  \<^verbatim>\<open>fetch_sitemap_urls\<close>. Each \<^verbatim>\<open>except\<close> clause returns the empty list.
  \<open>fetch_sub_sitemaps\<close> is the third loop, over \<^verbatim>\<open>root.findall('sm:sitemap', namespaces)\<close>,
  with the list \<^verbatim>\<open>urls\<close> it extends; its value is \<open>None\<close> when the recursive call raised
  \<^verbatim>\<open>RecursionError\<close>, which ends the loop and is caught by \<^verbatim>\<open>except Exception\<close> in the
  call that runs the loop.
\<close>

fun fetch_sitemap_urls :: "nat \<Rightarrow> string \<Rightarrow> world \<Rightarrow> string list \<times> world"
  and fetch_sub_sitemaps ::
    "nat \<Rightarrow> xml list \<Rightarrow> string list \<Rightarrow> world \<Rightarrow> string list option \<times> world" where
  "fetch_sitemap_urls depth sitemap_url w =
     (case session_get sitemap_url w of
        (GetTimeout, w1) \<Rightarrow> ([], w1)
      | (GetConnectionError, w1) \<Rightarrow> ([], w1)
      | (GetException, w1) \<Rightarrow> ([], w1)
      | (GetResponse status_code response_text, w1) \<Rightarrow>
          if status_code \<noteq> 200 then ([], w1)
          else
            (case response_text of
               Malformed \<Rightarrow> ([], w1)
             | Doc root \<Rightarrow>
                 let urls = namespaced_urls root;
                     urls = (if urls = [] then plain_urls root else urls)
                 in if urls = []
                    then (case fetch_sub_sitemaps depth (findall (sm ''sitemap'') root) urls w1 of
                            (None, w2) \<Rightarrow> ([], w2)
                          | (Some urls, w2) \<Rightarrow> (urls, w2))
                    else (urls, w1)))"
| "fetch_sub_sitemaps depth [] urls w = (Some urls, w)"
| "fetch_sub_sitemaps depth (sitemap_elem # rest) urls w =
     (case loc_text (sm ''loc'') sitemap_elem of
        None \<Rightarrow> fetch_sub_sitemaps depth rest urls w
      | Some loc \<Rightarrow>
          (case depth of
             0 \<Rightarrow> (None, w)
           | Suc deeper \<Rightarrow>
               (case fetch_sitemap_urls deeper loc w of
                  (sub_urls, w1) \<Rightarrow>
                    fetch_sub_sitemaps depth rest (urls @ sub_urls) (sleep 1 w1))))"

declare fetch_sitemap_urls.simps [simp del]

section \<open>Submission ledger and staging file\<close>

text \<open>
  Files are opened in text mode. On reading, Python turns each of \<^verbatim>\<open>\r\n\<close> and \<^verbatim>\<open>\r\<close>
  into \<^verbatim>\<open>\n\<close>; iterating over the file then yields the lines, each with its closing
  \<^verbatim>\<open>\n\<close> (the last line may have none). Writing is taken to store the text as it is.
\<close>

fun universal_newlines :: "string \<Rightarrow> string" where
  "universal_newlines [] = []"
| "universal_newlines [c] = (if c = CR then [LF] else [c])"
| "universal_newlines (c # d # cs) =
     (if c = CR
      then (if d = LF then LF # universal_newlines cs else LF # universal_newlines (d # cs))
      else c # universal_newlines (d # cs))"

fun file_lines :: "string \<Rightarrow> string list" where
  "file_lines [] = []"
| "file_lines (c # cs) =
     (if c = LF then [LF] # file_lines cs
      else (case file_lines cs of [] \<Rightarrow> [[c]] | l # ls \<Rightarrow> (c # l) # ls))"

definition read_lines :: "string \<Rightarrow> string list" where
  "read_lines s = file_lines (universal_newlines s)"

text \<open>What the loops \<^verbatim>\<open>for url in urls: f.write(url + "\n")\<close> write.\<close>

definition write_lines :: "string list \<Rightarrow> string" where
  "write_lines urls = concat (map (\<lambda>url. url @ [LF]) urls)"

definition load_submitted_urls :: "world \<Rightarrow> string set" where
  "load_submitted_urls w =
     (case files w SUBMITTED_URLS_FILE of
        Text s \<Rightarrow> set [strip line. line \<leftarrow> read_lines s, strip line \<noteq> []]
      | Missing \<Rightarrow> {}
      | Denied \<Rightarrow> {})"

definition save_submitted_urls :: "string list \<Rightarrow> world \<Rightarrow> bool \<times> world" where
  "save_submitted_urls urls w =
     (case files w SUBMITTED_URLS_FILE of
        Text s \<Rightarrow>
          (True, w\<lparr>files := (files w)(SUBMITTED_URLS_FILE := Text (s @ write_lines urls))\<rparr>)
      | Missing \<Rightarrow>
          (True, w\<lparr>files := (files w)(SUBMITTED_URLS_FILE := Text (write_lines urls))\<rparr>)
      | Denied \<Rightarrow> (False, w))"

definition save_urls_to_file :: "string list \<Rightarrow> string \<Rightarrow> world \<Rightarrow> bool \<times> world" where
  "save_urls_to_file urls filename w =
     (case files w filename of
        Denied \<Rightarrow> (False, w)
      | _ \<Rightarrow> (True, w\<lparr>files := (files w)(filename := Text (write_lines urls))\<rparr>))"

definition load_urls_from_file :: "string \<Rightarrow> world \<Rightarrow> string list" where
  "load_urls_from_file filename w =
     (case files w filename of
        Text s \<Rightarrow> [strip line. line \<leftarrow> read_lines s, strip line \<noteq> []]
      | Missing \<Rightarrow> []
      | Denied \<Rightarrow> [])"

section \<open>Diff engine\<close>

text \<open>
  \<^verbatim>\<open>get_new_urls\<close> ends with \<^verbatim>\<open>list(new_urls)\<close>. Python fixes no order for the elements
  of a set, so the conversion is a parameter: \<open>list_of\<close> is whatever enumeration the
  interpreter uses.
\<close>

definition get_new_urls ::
  "(string set \<Rightarrow> string list) \<Rightarrow> string list \<Rightarrow> string set \<Rightarrow> string list" where
  "get_new_urls list_of all_urls submitted_urls =
     (let all_urls_set = set all_urls;
          new_urls = all_urls_set - submitted_urls
      in list_of new_urls)"

section \<open>Orchestration\<close>

definition validate_configuration :: "config \<Rightarrow> bool" where
  "validate_configuration cfg =
     (if API_KEY cfg = ''your-api-key-here'' then False
      else if sublist ''yourdomain.com'' (SITE_URL cfg) then False
      else if sublist ''yourdomain.com'' (SITEMAP_URL cfg) then False
      else True)"

text \<open>
  Steps 6 and 7 of \<^verbatim>\<open>main\<close>: submit the staged URLs and, on success, append them to the
  ledger. The value of \<^verbatim>\<open>save_submitted_urls\<close> is not looked at.
\<close>

definition main_steps_6_7 ::
  "nat \<Rightarrow> config \<Rightarrow> string list \<Rightarrow> world \<Rightarrow> bool \<times> world" where
  "main_steps_6_7 depth cfg urls_to_submit w =
     (case submit_to_indexnow depth cfg urls_to_submit w of
        (success, w1) \<Rightarrow>
          if success then (success, snd (save_submitted_urls urls_to_submit w1))
          else (success, w1))"

text \<open>\<^verbatim>\<open>main\<close>, with the world it leaves behind as its value.\<close>

definition main ::
  "nat \<Rightarrow> (string set \<Rightarrow> string list) \<Rightarrow> config \<Rightarrow> world \<Rightarrow> world" where
  "main depth list_of cfg w =
     (if \<not> validate_configuration cfg then w
      else
        (case fetch_sitemap_urls depth (SITEMAP_URL cfg) w of
           (all_urls, w1) \<Rightarrow>
             if all_urls = [] then w1
             else
               let submitted_urls = load_submitted_urls w1;
                   new_urls = get_new_urls list_of all_urls submitted_urls
               in if new_urls = [] then w1
                  else
                    (case save_urls_to_file new_urls URLS_FILE w1 of
                       (False, w2) \<Rightarrow> w2
                     | (True, w2) \<Rightarrow>
                         let urls_to_submit = load_urls_from_file URLS_FILE w2
                         in if urls_to_submit = [] then w2
                            else snd (main_steps_6_7 depth cfg urls_to_submit w2))))"

section \<open>Vocabulary of the statements and sample inputs\<close>

text \<open>
  A string that a text file gives back as it was written: it is not empty, \<^verbatim>\<open>strip()\<close>
  leaves it alone, and it holds no line break.
\<close>

definition one_clean_line :: "string \<Rightarrow> bool" where
  "one_clean_line u = (u \<noteq> [] \<and> strip u = u \<and> LF \<notin> set u \<and> CR \<notin> set u)"

text \<open>A ledger file that is absent, or empty, or whose last line is closed.\<close>

definition ledger_closed :: "world \<Rightarrow> bool" where
  "ledger_closed w =
     (case files w SUBMITTED_URLS_FILE of
        Missing \<Rightarrow> True
      | Denied \<Rightarrow> False
      | Text s \<Rightarrow> s = [] \<or> last s = LF)"

text \<open>The \<^verbatim>\<open>url\<close> elements of a document, namespaced or not, in document order.\<close>

definition url_entries :: "xml \<Rightarrow> xml list" where
  "url_entries root = filter (\<lambda>e. tag e = sm ''url'' \<or> tag e = ''url'') (descendants root)"

text \<open>
  A first run: no file exists, no sitemap can be reached, every POST times out. The
  sample inputs below override what they need.
\<close>

definition fresh_world :: world where
  "fresh_world =
     \<lparr>web = (\<lambda>url. GetConnectionError),
      post_responses = sconst PostTimeout,
      files = (\<lambda>name. Missing),
      trace = []\<rparr>"

definition sample_config :: config where
  "sample_config =
     \<lparr>API_KEY = ''0123abcd'',
      SITE_URL = ''https://e.x'',
      SITEMAP_URL = ''https://e.x/sitemap.xml''\<rparr>"

text \<open>A first run in which the endpoint gives the listed answers, in this order.\<close>

definition answering :: "post_result list \<Rightarrow> world" where
  "answering rs = fresh_world\<lparr>post_responses := rs @- sconst PostTimeout\<rparr>"

text \<open>
  A first run on a web that serves the listed documents and answers 404, with a body
  that is not XML, for every other URL.
\<close>

definition serving :: "(string \<times> get_result) list \<Rightarrow> world" where
  "serving pages =
     fresh_world\<lparr>web := (\<lambda>url. case map_of pages url of
                                  Some r \<Rightarrow> r
                                | None \<Rightarrow> GetResponse 404 Malformed)\<rparr>"



text \<open>A document with one page URL and one sub-sitemap, both namespaced.\<close>

definition page_and_index :: xml where
  "page_and_index =
     Element (sm ''urlset'') None
       [Element (sm ''url'') None [Element (sm ''loc'') (Some ''https://e.x/a'') []],
        Element (sm ''sitemap'') None
          [Element (sm ''loc'') (Some ''https://e.x/more.xml'') []]]"

text \<open>A plain document with one page URL and one sub-sitemap entry (namespaced).\<close>

definition plain_page_and_index :: xml where
  "plain_page_and_index =
     Element ''urlset'' None
       [Element ''url'' None [Element ''loc'' (Some ''https://e.x/b'') []],
        Element (sm ''sitemap'') None
          [Element (sm ''loc'') (Some ''https://e.x/more.xml'') []]]"

text \<open>
  A document whose one page URL entry is namespaced but sits below a grouping element,
  next to a sub-sitemap entry:
  \<^verbatim>\<open><urlset xmlns:sm="http://www.sitemaps.org/schemas/sitemap/0.9"><group>
  <sm:url><sm:loc>https://e.x/a</sm:loc></sm:url></group>
  <sm:sitemap><sm:loc>https://e.x/more.xml</sm:loc></sm:sitemap></urlset>\<close>
\<close>

definition nested_page_and_index :: xml where
  "nested_page_and_index =
     Element ''urlset'' None
       [Element ''group'' None
          [Element (sm ''url'') None [Element (sm ''loc'') (Some ''https://e.x/a'') []]],
        Element (sm ''sitemap'') None
          [Element (sm ''loc'') (Some ''https://e.x/more.xml'') []]]"

text \<open>\<open>n\<close> distinct page URLs.\<close>

definition page_url :: "nat \<Rightarrow> string" where
  "page_url i = ''https://e.x/p'' @ replicate i (CHR ''a'')"

definition page_urls :: "nat \<Rightarrow> string list" where
  "page_urls n = map page_url [0..<n]"

text \<open>A namespaced sitemap that lists the given URLs, one \<^verbatim>\<open>url\<close> entry each.\<close>

definition sitemap_of :: "string list \<Rightarrow> xml" where
  "sitemap_of urls =
     Element (sm ''urlset'') None
       (map (\<lambda>u. Element (sm ''url'') None [Element (sm ''loc'') (Some u) []]) urls)"

text \<open>
  A first run on a site whose sitemap lists 10,001 pages, with an endpoint that accepts
  the first submission.
\<close>

definition big_site :: world where
  "big_site =
     (serving [(SITEMAP_URL sample_config, GetResponse 200 (Doc (sitemap_of (page_urls 10001))))])
       \<lparr>post_responses := PostResponse 200 ## sconst PostTimeout\<rparr>"

text \<open>An interpreter that lists a set of URLs in the order of a given list.\<close>

definition listed_as :: "string list \<Rightarrow> string set \<Rightarrow> string list" where
  "listed_as order S = filter (\<lambda>u. u \<in> S) order"

section \<open>Reading back what was written\<close>

subsection \<open>Lines\<close>

lemma isspace_LF: "isspace LF"
  by (simp add: isspace_def LF_def)

lemma LF_neq_CR: "LF \<noteq> CR"
  by (simp add: LF_def CR_def)

lemma strip_snoc_space:
  assumes "isspace c"
  shows "strip (u @ [c]) = strip u"
proof (cases "\<forall>x\<in>set u. isspace x")
  case True
  then have "dropWhile isspace u = []" by simp
  moreover from True assms have "dropWhile isspace (u @ [c]) = []" by simp
  ultimately show ?thesis by (simp only: strip_def)
next
  case False
  then obtain x where "x \<in> set u" "\<not> isspace x" by blast
  then have "dropWhile isspace (u @ [c]) = dropWhile isspace u @ [c]"
    by (simp add: dropWhile_append1)
  with assms show ?thesis by (simp add: strip_def)
qed

lemma strip_unchanged:
  assumes "u \<noteq> []" and "\<not> isspace (hd u)" and "\<not> isspace (last u)"
  shows "strip u = u"
proof -
  from assms(1,2) have "dropWhile isspace u = u"
    by (cases u) simp_all
  moreover from assms(1,3) have "dropWhile isspace (rev u) = rev u"
    by (cases "rev u") (simp_all add: last_rev [symmetric] del: last_rev)
  ultimately show ?thesis by (simp add: strip_def)
qed

lemma universal_newlines_no_CR:
  "CR \<notin> set s \<Longrightarrow> universal_newlines s = s"
  by (induction s rule: universal_newlines.induct) auto

lemma universal_newlines_append:
  "s = [] \<or> last s \<noteq> CR \<Longrightarrow>
   universal_newlines (s @ t) = universal_newlines s @ universal_newlines t"
proof (induction s rule: universal_newlines.induct)
  case 1
  then show ?case by simp
next
  case (2 c)
  then show ?case by (cases t) auto
next
  case (3 c d cs)
  then show ?case by (cases cs) (auto split: if_splits)
qed

lemma universal_newlines_ends_LF:
  "s \<noteq> [] \<Longrightarrow> last s = LF \<Longrightarrow>
   universal_newlines s \<noteq> [] \<and> last (universal_newlines s) = LF"
  by (induction s rule: universal_newlines.induct) (auto split: if_splits)

lemma file_lines_append:
  "s = [] \<or> last s = LF \<Longrightarrow> file_lines (s @ t) = file_lines s @ file_lines t"
proof (induction s)
  case Nil
  then show ?case by simp
next
  case (Cons c s)
  show ?case
  proof (cases "s = []")
    case True
    with Cons.prems show ?thesis by simp
  next
    case False
    with Cons.prems have "last s = LF" by simp
    with Cons.IH have ih: "file_lines (s @ t) = file_lines s @ file_lines t" by simp
    from False have "file_lines s \<noteq> []" by (cases s) (auto split: list.splits)
    with ih show ?thesis by (auto split: list.splits)
  qed
qed

lemma file_lines_one:
  "LF \<notin> set u \<Longrightarrow> file_lines (u @ [LF]) = [u @ [LF]]"
  by (induction u) (auto split: list.splits)

lemma read_lines_append:
  assumes "s = [] \<or> last s = LF"
  shows "read_lines (s @ t) = read_lines s @ read_lines t"
proof (cases "s = []")
  case True
  then show ?thesis by (simp add: read_lines_def)
next
  case False
  with assms have "last s = LF" by simp
  with False have "universal_newlines (s @ t) = universal_newlines s @ universal_newlines t"
    by (simp add: universal_newlines_append LF_neq_CR)
  moreover from False \<open>last s = LF\<close> have "last (universal_newlines s) = LF"
    by (simp add: universal_newlines_ends_LF)
  ultimately show ?thesis
    by (simp add: read_lines_def file_lines_append)
qed

lemma read_lines_one:
  assumes "LF \<notin> set u" and "CR \<notin> set u"
  shows "read_lines (u @ [LF]) = [u @ [LF]]"
proof -
  from assms(2) have "CR \<notin> set (u @ [LF])"
    using LF_neq_CR by auto
  then have "universal_newlines (u @ [LF]) = u @ [LF]"
    by (rule universal_newlines_no_CR)
  with assms(1) show ?thesis
    by (simp add: read_lines_def file_lines_one)
qed

lemma write_lines_closed:
  "write_lines urls = [] \<or> last (write_lines urls) = LF"
  by (induction urls) (auto simp: write_lines_def)

lemma read_lines_write_lines:
  "\<forall>u\<in>set urls. LF \<notin> set u \<and> CR \<notin> set u \<Longrightarrow>
   read_lines (write_lines urls) = map (\<lambda>u. u @ [LF]) urls"
proof (induction urls)
  case Nil
  then show ?case by (simp add: write_lines_def read_lines_def)
next
  case (Cons u urls)
  have "write_lines (u # urls) = (u @ [LF]) @ write_lines urls"
    by (simp add: write_lines_def)
  moreover have "read_lines ((u @ [LF]) @ write_lines urls) =
      read_lines (u @ [LF]) @ read_lines (write_lines urls)"
    by (rule read_lines_append) simp
  ultimately have "read_lines (write_lines (u # urls)) =
      read_lines (u @ [LF]) @ read_lines (write_lines urls)"
    by (simp only:)
  with Cons show ?case by (simp add: read_lines_one)
qed

lemma kept_lines_written:
  assumes "\<forall>u\<in>set urls. one_clean_line u"
  shows "[strip line. line \<leftarrow> read_lines (write_lines urls), strip line \<noteq> []] = urls"
proof -
  from assms have "read_lines (write_lines urls) = map (\<lambda>u. u @ [LF]) urls"
    by (intro read_lines_write_lines) (simp add: one_clean_line_def)
  moreover from assms
  have "[strip line. line \<leftarrow> map (\<lambda>u. u @ [LF]) urls, strip line \<noteq> []] = urls"
    by (induction urls) (simp_all add: strip_snoc_space isspace_LF one_clean_line_def)
  ultimately show ?thesis by simp
qed

lemma kept_lines_append:
  assumes "s = [] \<or> last s = LF"
  shows "[strip line. line \<leftarrow> read_lines (s @ t), strip line \<noteq> []] =
         [strip line. line \<leftarrow> read_lines s, strip line \<noteq> []] @
         [strip line. line \<leftarrow> read_lines t, strip line \<noteq> []]"
  using assms by (simp add: read_lines_append)


section \<open>Properties of the ledger\<close>

text \<open>
  Appending clean lines to a closed ledger adds exactly those lines to what
  \<^verbatim>\<open>load_submitted_urls\<close> reads.
\<close>

lemma load_after_save:
  assumes "ledger_closed w" and "\<forall>u\<in>set urls. one_clean_line u"
  shows "fst (save_submitted_urls urls w)"
    and "load_submitted_urls (snd (save_submitted_urls urls w)) = load_submitted_urls w \<union> set urls"
proof -
  show "fst (save_submitted_urls urls w)"
    using assms(1)
    by (simp add: save_submitted_urls_def ledger_closed_def split: file_state.splits)
  show "load_submitted_urls (snd (save_submitted_urls urls w)) = load_submitted_urls w \<union> set urls"
  proof (cases "files w SUBMITTED_URLS_FILE")
    case Missing
    then show ?thesis
      using kept_lines_written [OF assms(2)]
      by (simp add: save_submitted_urls_def load_submitted_urls_def)
  next
    case Denied
    with assms(1) show ?thesis by (simp add: ledger_closed_def)
  next
    case (Text s)
    with assms(1) have "s = [] \<or> last s = LF" by (simp add: ledger_closed_def)
    from kept_lines_append [OF this, of "write_lines urls"] kept_lines_written [OF assms(2)] Text
    show ?thesis
      by (simp add: save_submitted_urls_def load_submitted_urls_def)
  qed
qed




section \<open>Properties of the diff engine\<close>

text \<open>
  C7. Whatever order the interpreter lists a set in, as long as the list holds the
  elements of the set, the URLs that \<^verbatim>\<open>get_new_urls\<close> returns are the sitemap URLs that
  are not in the ledger: none of them is in \<open>submitted_urls\<close>, and every element of
  \<open>all_urls\<close> outside \<open>submitted_urls\<close> is among them.
\<close>

theorem get_new_urls_is_set_difference:
  assumes "set (list_of (set all_urls - submitted_urls)) = set all_urls - submitted_urls"
  shows "set (get_new_urls list_of all_urls submitted_urls) = set all_urls - submitted_urls
         \<and> set (get_new_urls list_of all_urls submitted_urls) \<inter> submitted_urls = {}
         \<and> (\<forall>u\<in>set all_urls. u \<notin> submitted_urls \<longrightarrow>
               u \<in> set (get_new_urls list_of all_urls submitted_urls))"
  using assms by (auto simp: get_new_urls_def Let_def)

lemma diff_ex: "set [''a'', ''b'', ''a'', ''c''] - {''b'', ''z''} = {''a'', ''c''}"
  by auto

theorem get_new_urls_is_set_difference_witness:
  "set ((\<lambda>S. filter (\<lambda>u. u \<in> S) [''c'', ''b'', ''a'']) (set [''a'', ''b'', ''a'', ''c''] - {''b'', ''z''})) =
     set [''a'', ''b'', ''a'', ''c''] - {''b'', ''z''}
   \<and> set (get_new_urls (\<lambda>S. filter (\<lambda>u. u \<in> S) [''c'', ''b'', ''a''])
             [''a'', ''b'', ''a'', ''c''] {''b'', ''z''}) = {''a'', ''c''}"
proof -
  have enum: "set ((\<lambda>S. filter (\<lambda>u. u \<in> S) [''c'', ''b'', ''a'']) (set [''a'', ''b'', ''a'', ''c''] - {''b'', ''z''})) =
     set [''a'', ''b'', ''a'', ''c''] - {''b'', ''z''}"
    unfolding diff_ex by auto
  have "set (get_new_urls (\<lambda>S. filter (\<lambda>u. u \<in> S) [''c'', ''b'', ''a''])
             [''a'', ''b'', ''a'', ''c''] {''b'', ''z''}) = set [''a'', ''b'', ''a'', ''c''] - {''b'', ''z''}"
    using get_new_urls_is_set_difference
      [of "\<lambda>S. filter (\<lambda>u. u \<in> S) [''c'', ''b'', ''a'']" "[''a'', ''b'', ''a'', ''c'']" "{''b'', ''z''}",
       OF enum]
    by (rule conjunct1)
  with enum show ?thesis
    unfolding diff_ex by (intro conjI)
qed

section \<open>Properties of the submission client\<close>

subsection \<open>The trace\<close>

lemma posted_append: "posted (es @ fs) = posted es @ posted fs"
  by (induction es rule: posted.induct) simp_all

lemma posted_retries:
  "posted (concat (replicate n [Post p, Sleep secs])) = replicate n p"
  by (induction n) simp_all

subsection \<open>One attempt, and a run of attempts\<close>

text \<open>
  For a non-empty list one call sends one request with the batch cut to 10,000 and then
  looks at the answer.
\<close>

lemma submit_step:
  assumes "urls \<noteq> []"
  shows "submit_to_indexnow depth cfg urls w =
     (let w1 = w\<lparr>post_responses := stl (post_responses w),
                  trace := trace w @ [Post (make_payload cfg (take 10000 urls))]\<rparr>
      in case shd (post_responses w) of
           PostResponse status \<Rightarrow>
             if status = 200 \<or> status = 202 then (True, w1)
             else if status = 429 then
               (case depth of
                  0 \<Rightarrow> (False, sleep 300 w1)
                | Suc deeper \<Rightarrow> submit_to_indexnow deeper cfg (take 10000 urls) (sleep 300 w1))
             else (False, w1)
         | _ \<Rightarrow> (False, w1))"
  using assms
  by (subst submit_to_indexnow.simps)
     (simp add: session_post_def Let_def split: post_result.splits nat.splits)

text \<open>
  When the endpoint answers 429 \<open>k\<close> times and then \<open>r\<close>, and \<open>k\<close> retries fit below the
  first call, the call sends \<open>k + 1\<close> identical requests, with a pause of 300 seconds
  after each of the first \<open>k\<close>.
\<close>

lemma submit_run:
  assumes "urls \<noteq> []" and "r \<noteq> PostResponse 429"
    and "post_responses w = replicate k (PostResponse 429) @- (r ## rest)"
    and "k \<le> depth"
  shows "submit_to_indexnow depth cfg urls w =
     (r = PostResponse 200 \<or> r = PostResponse 202,
      w\<lparr>post_responses := rest,
        trace := trace w
          @ concat (replicate k [Post (make_payload cfg (take 10000 urls)), Sleep 300])
          @ [Post (make_payload cfg (take 10000 urls))]\<rparr>)"
  using assms
proof (induction k arbitrary: w urls depth)
  case 0
  then show ?case
    by (cases r) (auto simp: submit_step Let_def)
next
  case (Suc k)
  let ?p = "make_payload cfg (take 10000 urls)"
  let ?w1 = "sleep 300 (w\<lparr>post_responses := stl (post_responses w),
                  trace := trace w @ [Post ?p]\<rparr>)"
  from Suc.prems(4) obtain deeper where depth: "depth = Suc deeper" and fits: "k \<le> deeper"
    by (cases depth) auto
  have nonempty: "take 10000 urls \<noteq> []"
    using Suc.prems(1) by simp
  have rest: "post_responses ?w1 = replicate k (PostResponse 429) @- (r ## rest)"
    using Suc.prems(3) by (simp add: sleep_def)
  have "submit_to_indexnow depth cfg urls w = submit_to_indexnow deeper cfg (take 10000 urls) ?w1"
    using Suc.prems depth by (simp add: submit_step Let_def)
  also have "\<dots> = (r = PostResponse 200 \<or> r = PostResponse 202,
           ?w1\<lparr>post_responses := rest,
             trace := trace ?w1
               @ concat (replicate k [Post (make_payload cfg (take 10000 (take 10000 urls))), Sleep 300])
               @ [Post (make_payload cfg (take 10000 (take 10000 urls)))]\<rparr>)"
    by (rule Suc.IH [OF nonempty Suc.prems(2) rest fits])
  finally show ?case
    by (simp add: sleep_def)
qed

text \<open>
  When the endpoint answers 429 once more than retries fit, the deepest call pauses and
  then cannot call again: the error is caught and every call returns \<^verbatim>\<open>False\<close>.
\<close>

lemma submit_gives_up:
  assumes "urls \<noteq> []"
    and "post_responses w = replicate (Suc depth) (PostResponse 429) @- rest"
  shows "submit_to_indexnow depth cfg urls w =
     (False,
      w\<lparr>post_responses := rest,
        trace := trace w
          @ concat (replicate (Suc depth) [Post (make_payload cfg (take 10000 urls)), Sleep 300])\<rparr>)"
  using assms
proof (induction depth arbitrary: w urls)
  case 0
  then show ?case
    by (simp add: submit_step Let_def sleep_def)
next
  case (Suc depth)
  let ?p = "make_payload cfg (take 10000 urls)"
  let ?w1 = "sleep 300 (w\<lparr>post_responses := stl (post_responses w),
                  trace := trace w @ [Post ?p]\<rparr>)"
  have nonempty: "take 10000 urls \<noteq> []"
    using Suc.prems(1) by simp
  have rest: "post_responses ?w1 = replicate (Suc depth) (PostResponse 429) @- rest"
    using Suc.prems(2) by (simp add: sleep_def)
  have "submit_to_indexnow (Suc depth) cfg urls w =
      submit_to_indexnow depth cfg (take 10000 urls) ?w1"
    using Suc.prems by (simp add: submit_step Let_def)
  also have "\<dots> = (False,
      ?w1\<lparr>post_responses := rest,
        trace := trace ?w1
          @ concat (replicate (Suc depth)
              [Post (make_payload cfg (take 10000 (take 10000 urls))), Sleep 300])\<rparr>)"
    by (rule Suc.IH [OF nonempty rest])
  finally show ?case
    by (simp add: sleep_def)
qed

text \<open>Whatever the endpoint answers, every request of a call carries the same payload.\<close>

lemma submit_posts_one_payload:
  assumes "urls \<noteq> []"
  shows "\<exists>n>0. posts (snd (submit_to_indexnow depth cfg urls w)) =
           posts w @ replicate n (make_payload cfg (take 10000 urls))
         \<and> files (snd (submit_to_indexnow depth cfg urls w)) = files w"
  using assms
proof (induction depth arbitrary: w urls)
  case 0
  have "posts (snd (submit_to_indexnow 0 cfg urls w)) =
           posts w @ replicate 1 (make_payload cfg (take 10000 urls))
        \<and> files (snd (submit_to_indexnow 0 cfg urls w)) = files w"
    using 0
    by (simp add: submit_step Let_def sleep_def posts_def posted_append
        split: post_result.splits)
  then show ?case by blast
next
  case (Suc depth)
  let ?p = "make_payload cfg (take 10000 urls)"
  let ?w1 = "sleep 300 (w\<lparr>post_responses := stl (post_responses w),
                  trace := trace w @ [Post ?p]\<rparr>)"
  show ?case
  proof (cases "shd (post_responses w) = PostResponse 429")
    case True
    have nonempty: "take 10000 urls \<noteq> []"
      using Suc.prems by simp
    from Suc.IH [OF nonempty, of ?w1] obtain n where n: "n > 0"
      "posts (snd (submit_to_indexnow depth cfg (take 10000 urls) ?w1)) =
         posts ?w1 @ replicate n (make_payload cfg (take 10000 (take 10000 urls)))"
      "files (snd (submit_to_indexnow depth cfg (take 10000 urls) ?w1)) = files ?w1"
      by blast
    have step: "submit_to_indexnow (Suc depth) cfg urls w =
        submit_to_indexnow depth cfg (take 10000 urls) ?w1"
      using Suc.prems True by (simp add: submit_step Let_def)
    have "posts ?w1 = posts w @ [?p]"
      by (simp add: sleep_def posts_def posted_append)
    with n step have "posts (snd (submit_to_indexnow (Suc depth) cfg urls w)) =
        posts w @ replicate (Suc n) ?p
        \<and> files (snd (submit_to_indexnow (Suc depth) cfg urls w)) = files w"
      by (simp add: sleep_def)
    then show ?thesis by blast
  next
    case False
    then have "posts (snd (submit_to_indexnow (Suc depth) cfg urls w)) =
           posts w @ replicate 1 ?p
        \<and> files (snd (submit_to_indexnow (Suc depth) cfg urls w)) = files w"
      using Suc.prems
      by (auto simp: submit_step Let_def posts_def posted_append split: post_result.splits)
    then show ?thesis by blast
  qed
qed

text \<open>
  C9. For the empty list \<^verbatim>\<open>submit_to_indexnow\<close> returns \<^verbatim>\<open>False\<close> at once: the world
  it leaves is the world it found, so no request was sent, nothing was slept and no file
  was touched.
\<close>

theorem submit_empty_fails_without_request:
  "submit_to_indexnow depth cfg [] w = (False, w)"
  by (simp add: submit_to_indexnow.simps)

subsection \<open>Steps 6 and 7 of the run\<close>

lemma main_steps_6_7_run:
  assumes "urls \<noteq> []" and "r \<noteq> PostResponse 429"
    and "post_responses w = replicate k (PostResponse 429) @- (r ## rest)"
    and "k \<le> depth"
  shows "main_steps_6_7 depth cfg urls w =
     (let w1 = w\<lparr>post_responses := rest,
                  trace := trace w
                    @ concat (replicate k [Post (make_payload cfg (take 10000 urls)), Sleep 300])
                    @ [Post (make_payload cfg (take 10000 urls))]\<rparr>
      in if r = PostResponse 200 \<or> r = PostResponse 202
         then (True, snd (save_submitted_urls urls w1))
         else (False, w1))"
  by (simp add: main_steps_6_7_def submit_run [OF assms] Let_def)

subsection \<open>The sample inputs\<close>

lemma length_page_urls: "length (page_urls n) = n"
  by (simp add: page_urls_def)

lemma take_page_urls: "m \<le> n \<Longrightarrow> take m (page_urls n) = page_urls m"
  by (simp add: page_urls_def take_map take_upt)

lemma answering_responses:
  "post_responses (answering (replicate n a @ [b])) = replicate n a @- (b ## sconst PostTimeout)"
  by (simp add: answering_def shift_append)

subsection \<open>Retry until accepted\<close>

text \<open>
  C2, as amended. Let the list be non-empty, let the endpoint answer 429 \<open>k\<close> times and
  then 200 or 202, and let \<open>k\<close> nested retries fit within the interpreter's recursion
  limit. Then \<^verbatim>\<open>submit_to_indexnow\<close> returns \<^verbatim>\<open>True\<close>, and what it has done is, in this
  order: a request, a pause of 300 seconds, a request, a pause, and so on, ending with
  request number \<open>k + 1\<close>. Every request carries the same payload, whose \<^verbatim>\<open>urlList\<close> is the
  batch cut to its first 10,000 URLs. For the answers 429, 429, 200 that is three equal
  requests with a pause before the second and before the third.
\<close>

theorem submit_retries_same_batch_until_accepted:
  assumes "urls \<noteq> []"
    and "post_responses w = replicate k (PostResponse 429) @- (PostResponse status ## rest)"
    and "status = 200 \<or> status = 202"
    and "k \<le> depth"
  shows "submit_to_indexnow depth cfg urls w =
     (True,
      w\<lparr>post_responses := rest,
        trace := trace w
          @ concat (replicate k [Post (make_payload cfg (take 10000 urls)), Sleep 300])
          @ [Post (make_payload cfg (take 10000 urls))]\<rparr>)
     \<and> urlList (make_payload cfg (take 10000 urls)) = take 10000 urls"
proof -
  from assms(3) have "PostResponse status \<noteq> PostResponse 429" by auto
  from submit_run [OF assms(1) this assms(2) assms(4)] assms(3) show ?thesis
    by (simp add: make_payload_def)
qed

theorem submit_retries_same_batch_until_accepted_witness:
  "[''https://e.x/new''] \<noteq> []
   \<and> post_responses (answering [PostResponse 429, PostResponse 429, PostResponse 200]) =
       replicate 2 (PostResponse 429) @- (PostResponse 200 ## sconst PostTimeout)
   \<and> ((200::int) = 200 \<or> (200::int) = 202)
   \<and> (2::nat) \<le> 999
   \<and> submit_to_indexnow 999 sample_config [''https://e.x/new'']
         (answering [PostResponse 429, PostResponse 429, PostResponse 200]) =
       (True,
        fresh_world\<lparr>post_responses := sconst PostTimeout,
          trace := [Post (make_payload sample_config [''https://e.x/new'']), Sleep 300,
                    Post (make_payload sample_config [''https://e.x/new'']), Sleep 300,
                    Post (make_payload sample_config [''https://e.x/new''])]\<rparr>)
   \<and> urlList (make_payload sample_config [''https://e.x/new'']) = [''https://e.x/new'']"
  using submit_retries_same_batch_until_accepted
    [of "[''https://e.x/new'']" "answering [PostResponse 429, PostResponse 429, PostResponse 200]"
        2 200 "sconst PostTimeout" 999 sample_config]
  by (simp add: answering_def fresh_world_def numeral_2_eq_2)

text \<open>
  C2 as stated speaks of any finite number of answers 429. Python's default limit of
  1000 frames leaves room for at most 999 retries below the first call; when the endpoint
  answers 429 a thousand times and then 200, the call returns \<^verbatim>\<open>False\<close>.
\<close>

theorem submit_gives_up_after_1000_answers_429_counterexample:
  "fst (submit_to_indexnow 999 sample_config [''https://e.x/new'']
          (answering (replicate 1000 (PostResponse 429) @ [PostResponse 200]))) = False"
proof -
  have "post_responses (answering (replicate 1000 (PostResponse 429) @ [PostResponse 200])) =
      replicate (Suc 999) (PostResponse 429) @- (PostResponse 200 ## sconst PostTimeout)"
    by (simp only: answering_responses) simp
  from submit_gives_up [OF _ this, of "[''https://e.x/new'']" sample_config]
  show ?thesis by simp
qed

subsection \<open>Success and failure\<close>

text \<open>
  C3, as amended. Let the list be non-empty. (1) Let \<open>r\<close> be the first answer that is not
  a 429, after \<open>k\<close> answers 429, with \<open>k\<close> retries fitting within the recursion limit.
  \<^verbatim>\<open>submit_to_indexnow\<close> returns \<^verbatim>\<open>True\<close> exactly when \<open>r\<close> is a response with status 200 or
  202. Its trace ends with the request that \<open>r\<close> answers, so nothing is sent after \<open>r\<close>:
  a 400, a 403, a 422 or any other status is not retried. When the call fails, steps 6
  and 7 of \<^verbatim>\<open>main\<close> end in that same world: no file has changed, and the ledger reads as
  it did before. (2) Whatever the endpoint answers, a call that returns \<^verbatim>\<open>False\<close>
  leaves every file, and so the ledger, as it was, and steps 6 and 7 add nothing to it.
\<close>

theorem submit_succeeds_exactly_on_200_or_202:
  assumes "urls \<noteq> []"
  shows "(post_responses w = replicate k (PostResponse 429) @- (r ## rest)
          \<and> r \<noteq> PostResponse 429 \<and> k \<le> depth \<longrightarrow>
          (let w1 = w\<lparr>post_responses := rest,
                       trace := trace w
                         @ concat (replicate k [Post (make_payload cfg (take 10000 urls)), Sleep 300])
                         @ [Post (make_payload cfg (take 10000 urls))]\<rparr>
           in submit_to_indexnow depth cfg urls w =
                (r = PostResponse 200 \<or> r = PostResponse 202, w1)
              \<and> (\<not> (r = PostResponse 200 \<or> r = PostResponse 202) \<longrightarrow>
                   main_steps_6_7 depth cfg urls w = (False, w1)
                   \<and> files w1 = files w
                   \<and> load_submitted_urls w1 = load_submitted_urls w)))
         \<and> (\<not> fst (submit_to_indexnow depth cfg urls w) \<longrightarrow>
              main_steps_6_7 depth cfg urls w = submit_to_indexnow depth cfg urls w
              \<and> files (snd (main_steps_6_7 depth cfg urls w)) = files w
              \<and> load_submitted_urls (snd (main_steps_6_7 depth cfg urls w)) =
                  load_submitted_urls w)"
proof (intro conjI impI)
  assume a: "post_responses w = replicate k (PostResponse 429) @- (r ## rest)
          \<and> r \<noteq> PostResponse 429 \<and> k \<le> depth"
  then have shape: "post_responses w = replicate k (PostResponse 429) @- (r ## rest)"
    and r: "r \<noteq> PostResponse 429" and k: "k \<le> depth"
    by simp_all
  from submit_run [OF assms r shape k] main_steps_6_7_run [OF assms r shape k]
  show "let w1 = w\<lparr>post_responses := rest,
                       trace := trace w
                         @ concat (replicate k [Post (make_payload cfg (take 10000 urls)), Sleep 300])
                         @ [Post (make_payload cfg (take 10000 urls))]\<rparr>
           in submit_to_indexnow depth cfg urls w =
                (r = PostResponse 200 \<or> r = PostResponse 202, w1)
              \<and> (\<not> (r = PostResponse 200 \<or> r = PostResponse 202) \<longrightarrow>
                   main_steps_6_7 depth cfg urls w = (False, w1)
                   \<and> files w1 = files w
                   \<and> load_submitted_urls w1 = load_submitted_urls w)"
    by (simp add: Let_def load_submitted_urls_def)
next
  assume failed: "\<not> fst (submit_to_indexnow depth cfg urls w)"
  then show same: "main_steps_6_7 depth cfg urls w = submit_to_indexnow depth cfg urls w"
    by (cases "submit_to_indexnow depth cfg urls w") (simp add: main_steps_6_7_def)
  from submit_posts_one_payload [OF assms, of depth cfg w]
  have files: "files (snd (submit_to_indexnow depth cfg urls w)) = files w"
    by blast
  with same show "files (snd (main_steps_6_7 depth cfg urls w)) = files w"
    by simp
  with same show "load_submitted_urls (snd (main_steps_6_7 depth cfg urls w)) =
      load_submitted_urls w"
    by (simp add: load_submitted_urls_def)
qed

theorem submit_succeeds_exactly_on_200_or_202_witness:
  "[''https://e.x/new''] \<noteq> []
   \<and> post_responses (answering [PostResponse 429, PostResponse 403]) =
       replicate 1 (PostResponse 429) @- (PostResponse 403 ## sconst PostTimeout)
   \<and> PostResponse 403 \<noteq> PostResponse 429
   \<and> (1::nat) \<le> 999
   \<and> submit_to_indexnow 999 sample_config [''https://e.x/new'']
         (answering [PostResponse 429, PostResponse 403]) =
       (False,
        fresh_world\<lparr>post_responses := sconst PostTimeout,
          trace := [Post (make_payload sample_config [''https://e.x/new'']), Sleep 300,
                    Post (make_payload sample_config [''https://e.x/new''])]\<rparr>)
   \<and> main_steps_6_7 999 sample_config [''https://e.x/new'']
         (answering [PostResponse 429, PostResponse 403]) =
       (False,
        fresh_world\<lparr>post_responses := sconst PostTimeout,
          trace := [Post (make_payload sample_config [''https://e.x/new'']), Sleep 300,
                    Post (make_payload sample_config [''https://e.x/new''])]\<rparr>)
   \<and> files (snd (main_steps_6_7 999 sample_config [''https://e.x/new'']
         (answering [PostResponse 429, PostResponse 403]))) = (\<lambda>name. Missing)
   \<and> load_submitted_urls (snd (main_steps_6_7 999 sample_config [''https://e.x/new'']
         (answering [PostResponse 429, PostResponse 403]))) = {}"
  using submit_succeeds_exactly_on_200_or_202
    [of "[''https://e.x/new'']" "answering [PostResponse 429, PostResponse 403]"
        1 "PostResponse 403" "sconst PostTimeout" 999 sample_config]
  by (simp add: answering_def fresh_world_def Let_def load_submitted_urls_def)

text \<open>
  C3 as stated ties success to the first answer that is not a 429, however late it comes.
  When that answer is a 202 that comes after a thousand answers 429, with room for 999
  retries, the call returns \<^verbatim>\<open>False\<close>.
\<close>

theorem submit_fails_on_202_after_1000_answers_429_counterexample:
  "\<not> fst (submit_to_indexnow 999 sample_config [''https://e.x/new'']
            (answering (replicate 1000 (PostResponse 429) @ [PostResponse 202])))"
proof -
  have "post_responses (answering (replicate 1000 (PostResponse 429) @ [PostResponse 202])) =
      replicate (Suc 999) (PostResponse 429) @- (PostResponse 202 ## sconst PostTimeout)"
    by (simp only: answering_responses) simp
  from submit_gives_up [OF _ this, of "[''https://e.x/new'']" sample_config]
  show ?thesis by simp
qed

subsection \<open>Truncation\<close>

text \<open>
  C4. Let the list hold more than 10,000 URLs. Whatever the endpoint answers, the call
  sends at least one request, and every request it sends carries as its \<^verbatim>\<open>urlList\<close> the
  first 10,000 URLs of the list, in the order of the list; the rest of the list, which is
  not empty, is in no request. When the endpoint gives some answer other than 429 after
  \<open>k\<close> answers 429, and \<open>k\<close> retries fit within the recursion limit, the requests are
  \<open>k + 1\<close> in number.
\<close>

theorem submit_sends_first_10000_only:
  assumes "length urls > 10000"
  shows "\<exists>n>0.
           posts (snd (submit_to_indexnow depth cfg urls w)) =
             posts w @ replicate n (make_payload cfg (take 10000 urls))
           \<and> (\<forall>k r rest.
                 post_responses w = replicate k (PostResponse 429) @- (r ## rest)
                 \<and> r \<noteq> PostResponse 429 \<and> k \<le> depth \<longrightarrow> n = Suc k)
           \<and> urlList (make_payload cfg (take 10000 urls)) = take 10000 urls
           \<and> length (take 10000 urls) = 10000
           \<and> urls = take 10000 urls @ drop 10000 urls
           \<and> drop 10000 urls \<noteq> []"
proof -
  let ?p = "make_payload cfg (take 10000 urls)"
  from assms have nonempty: "urls \<noteq> []" by auto
  from submit_posts_one_payload [OF nonempty, of depth cfg w]
  obtain n where n: "n > 0"
    "posts (snd (submit_to_indexnow depth cfg urls w)) = posts w @ replicate n ?p"
    by blast
  have "n = Suc k"
    if shape: "post_responses w = replicate k (PostResponse 429) @- (r ## rest)"
      and r: "r \<noteq> PostResponse 429" and k: "k \<le> depth" for k r rest
  proof -
    from submit_run [OF nonempty r shape k, of cfg]
    have "posts (snd (submit_to_indexnow depth cfg urls w)) = posts w @ replicate (Suc k) ?p"
      by (simp add: posts_def posted_append posted_retries replicate_append_same)
    with n(2) have "replicate n ?p = replicate (Suc k) ?p" by simp
    then have "length (replicate n ?p) = length (replicate (Suc k) ?p)" by (simp only:)
    then show ?thesis by simp
  qed
  with n assms show ?thesis
    by (intro exI [of _ n]) (auto simp: make_payload_def)
qed

theorem submit_sends_first_10000_only_witness:
  "length (page_urls 10001) > 10000
   \<and> post_responses (answering [PostResponse 200]) =
       replicate 0 (PostResponse 429) @- (PostResponse 200 ## sconst PostTimeout)
   \<and> PostResponse 200 \<noteq> PostResponse 429
   \<and> posts (snd (submit_to_indexnow 999 sample_config (page_urls 10001)
                    (answering [PostResponse 200]))) =
       [make_payload sample_config (page_urls 10000)]
   \<and> page_urls 10001 = page_urls 10000 @ [page_url 10000]"
proof -
  have shape: "post_responses (answering [PostResponse 200]) =
       replicate 0 (PostResponse 429) @- (PostResponse 200 ## sconst PostTimeout)"
    by (simp add: answering_def)
  have len: "length (page_urls 10001) > 10000"
    by (simp add: length_page_urls)
  have neq: "PostResponse 200 \<noteq> PostResponse 429" by simp
  have first: "take 10000 (page_urls 10001) = page_urls 10000"
    by (simp add: take_page_urls)
  have "drop 10000 (page_urls 10001) = [page_url 10000]"
    by (simp add: page_urls_def drop_map drop_upt)
  with first have split: "page_urls 10001 = page_urls 10000 @ [page_url 10000]"
    by (metis append_take_drop_id)
  have before: "posts (answering [PostResponse 200]) = []"
    by (simp add: posts_def answering_def fresh_world_def)
  from submit_sends_first_10000_only [OF len, of 999 sample_config "answering [PostResponse 200]"]
  obtain n where n:
    "posts (snd (submit_to_indexnow 999 sample_config (page_urls 10001)
                    (answering [PostResponse 200]))) =
       posts (answering [PostResponse 200]) @
         replicate n (make_payload sample_config (take 10000 (page_urls 10001)))"
    "\<forall>k r rest.
       post_responses (answering [PostResponse 200]) =
         replicate k (PostResponse 429) @- (r ## rest)
       \<and> r \<noteq> PostResponse 429 \<and> k \<le> 999 \<longrightarrow> n = Suc k"
    by blast
  from n(2) shape neq have "n = Suc 0" by blast
  with n(1) first before
  have "posts (snd (submit_to_indexnow 999 sample_config (page_urls 10001)
                    (answering [PostResponse 200]))) =
       [make_payload sample_config (page_urls 10000)]"
    by simp
  with shape len neq split show ?thesis by simp
qed

section \<open>Properties of the sitemap fetcher\<close>

text \<open>
  One call sends one GET and looks at the answer; only a document in which neither pass
  finds a URL leads to further calls.
\<close>

lemma fetch_one_document:
  "fetch_sitemap_urls depth sitemap_url w =
     (let w1 = w\<lparr>trace := trace w @ [Get sitemap_url]\<rparr>
      in case web w sitemap_url of
           GetResponse status_code response_text \<Rightarrow>
             if status_code \<noteq> 200 then ([], w1)
             else (case response_text of
                     Malformed \<Rightarrow> ([], w1)
                   | Doc root \<Rightarrow>
                       if namespaced_urls root \<noteq> [] then (namespaced_urls root, w1)
                       else if plain_urls root \<noteq> [] then (plain_urls root, w1)
                       else (case fetch_sub_sitemaps depth (findall (sm ''sitemap'') root) [] w1 of
                               (None, w2) \<Rightarrow> ([], w2)
                             | (Some urls, w2) \<Rightarrow> (urls, w2)))
         | _ \<Rightarrow> ([], w1))"
  by (subst fetch_sitemap_urls.simps)
     (simp add: session_get_def Let_def split: get_result.splits body.splits)

subsection \<open>Failures\<close>

text \<open>
  C6. When the GET times out, or the connection fails, or any other exception is raised,
  or the response has a status other than 200, or its body is not well-formed XML,
  \<^verbatim>\<open>fetch_sitemap_urls\<close> returns the empty list. The function is total, so the call
  returns, and its value is a list, not an exception; the one GET is all it has done.
\<close>

theorem fetch_failure_gives_empty_list:
  assumes "web w sitemap_url = GetTimeout
           \<or> web w sitemap_url = GetConnectionError
           \<or> web w sitemap_url = GetException
           \<or> (\<exists>status_code response_text.
                 web w sitemap_url = GetResponse status_code response_text
                 \<and> (status_code \<noteq> 200 \<or> response_text = Malformed))"
  shows "fetch_sitemap_urls depth sitemap_url w =
           ([], w\<lparr>trace := trace w @ [Get sitemap_url]\<rparr>)"
  using assms by (auto simp: fetch_one_document Let_def)

theorem fetch_failure_gives_empty_list_witness:
  "web (serving [(''https://e.x/sitemap.xml'', GetResponse 200 Malformed)])
       ''https://e.x/sitemap.xml'' = GetResponse 200 Malformed
   \<and> fetch_sitemap_urls 999 ''https://e.x/sitemap.xml''
        (serving [(''https://e.x/sitemap.xml'', GetResponse 200 Malformed)]) =
      ([], (serving [(''https://e.x/sitemap.xml'', GetResponse 200 Malformed)])
                  \<lparr>trace := [Get ''https://e.x/sitemap.xml'']\<rparr>)
   \<and> web (serving []) ''https://e.x/sitemap.xml'' = GetResponse 404 Malformed
   \<and> fetch_sitemap_urls 999 ''https://e.x/sitemap.xml'' (serving []) =
      ([], (serving [])\<lparr>trace := [Get ''https://e.x/sitemap.xml'']\<rparr>)
   \<and> web fresh_world ''https://e.x/sitemap.xml'' = GetConnectionError
   \<and> fetch_sitemap_urls 999 ''https://e.x/sitemap.xml'' fresh_world =
      ([], fresh_world\<lparr>trace := [Get ''https://e.x/sitemap.xml'']\<rparr>)"
proof -
  have a: "web (serving [(''https://e.x/sitemap.xml'', GetResponse 200 Malformed)])
       ''https://e.x/sitemap.xml'' = GetResponse 200 Malformed"
    by (simp add: serving_def)
  have b: "web (serving []) ''https://e.x/sitemap.xml'' = GetResponse 404 Malformed"
    by (simp add: serving_def)
  have c: "web fresh_world ''https://e.x/sitemap.xml'' = GetConnectionError"
    by (simp add: fresh_world_def)
  have ga: "trace (serving [(''https://e.x/sitemap.xml'', GetResponse 200 Malformed)]) = []"
    and gb: "trace (serving []) = []" and gc: "trace fresh_world = []"
    by (simp_all add: serving_def fresh_world_def)
  from fetch_failure_gives_empty_list
      [of "serving [(''https://e.x/sitemap.xml'', GetResponse 200 Malformed)]"
          "''https://e.x/sitemap.xml''" 999]
    fetch_failure_gives_empty_list [of "serving []" "''https://e.x/sitemap.xml''" 999]
    fetch_failure_gives_empty_list [of fresh_world "''https://e.x/sitemap.xml''" 999]
    a b c ga gb gc
  show ?thesis by simp
qed

subsection \<open>The sample documents\<close>


lemma map_filter_none_found:
  "(List.map_filter f es = []) = (\<forall>e\<in>set es. f e = None)"
  by (induction es) (auto simp: List.map_filter_simps split: option.splits)

lemma serving_one:
  "web (serving [(url, r)]) url = r"
  "trace (serving pages) = []"
  by (simp_all add: serving_def fresh_world_def)


lemma mixed_loc:
  "loc_text (sm ''loc'')
     (Element (sm ''url'') None [Element (sm ''loc'') (Some ''https://e.x/a'') []]) =
   Some ''https://e.x/a''"
  by (simp add: loc_text_def find_elem_def findall_def strip_def isspace_def)


lemma plain_loc:
  "loc_text ''loc'' (Element ''url'' None [Element ''loc'' (Some ''https://e.x/b'') []]) =
     Some ''https://e.x/b''"
  "loc_text ''loc'' (Element ''url'' None [Element ''loc'' (Some '' https://e.x/c '') []]) =
     Some ''https://e.x/c''"
  by (simp_all add: loc_text_def find_elem_def findall_def strip_def isspace_def)

lemma page_and_index_entries:
  "findall (sm ''url'') page_and_index =
     [Element (sm ''url'') None [Element (sm ''loc'') (Some ''https://e.x/a'') []]]"
  "List.map_filter (loc_text (sm ''loc'')) (findall (sm ''sitemap'') page_and_index) =
     [''https://e.x/more.xml'']"
  by (simp_all add: page_and_index_def findall_def List.map_filter_simps
      loc_text_def find_elem_def sm_def strip_def isspace_def)

lemma plain_page_and_index_entries:
  "findall (sm ''url'') plain_page_and_index = []"
  "findall_descendants ''url'' plain_page_and_index =
     [Element ''url'' None [Element ''loc'' (Some ''https://e.x/b'') []]]"
  "List.map_filter (loc_text (sm ''loc'')) (findall (sm ''sitemap'') plain_page_and_index) =
     [''https://e.x/more.xml'']"
  by (simp_all add: plain_page_and_index_def findall_def findall_descendants_def
      List.map_filter_simps loc_text_def find_elem_def sm_def strip_def isspace_def)

lemma nested_entries:
  "url_entries nested_page_and_index =
     [Element (sm ''url'') None [Element (sm ''loc'') (Some ''https://e.x/a'') []]]"
  "namespaced_urls nested_page_and_index = []"
  "plain_urls nested_page_and_index = []"
  "findall (sm ''sitemap'') nested_page_and_index =
     [Element (sm ''sitemap'') None [Element (sm ''loc'') (Some ''https://e.x/more.xml'') []]]"
  by (simp_all add: nested_page_and_index_def url_entries_def namespaced_urls_def
      plain_urls_def findall_def findall_descendants_def List.map_filter_simps sm_def)

lemma nested_sitemap_loc:
  "loc_text (sm ''loc'')
     (Element (sm ''sitemap'') None [Element (sm ''loc'') (Some ''https://e.x/more.xml'') []]) =
   Some ''https://e.x/more.xml''"
  by (simp add: loc_text_def find_elem_def findall_def strip_def isspace_def)

lemma sitemap_of_one:
  "namespaced_urls (sitemap_of [''https://e.x/d'']) = [''https://e.x/d'']"
  by (simp add: sitemap_of_def namespaced_urls_def findall_def List.map_filter_simps
      loc_text_def find_elem_def strip_def isspace_def)

subsection \<open>Documents without sub-sitemaps\<close>




subsection \<open>Page URLs before sub-sitemaps\<close>

text \<open>
  C10, as amended. Let the document be served with status 200 and be well-formed, and
  let it hold an entry that a pass reads a URL from: a namespaced \<^verbatim>\<open>url\<close> child of the
  root whose first namespaced \<^verbatim>\<open>loc\<close> child has a non-empty text, or a plain \<^verbatim>\<open>url\<close>
  element anywhere below the root whose first plain \<^verbatim>\<open>loc\<close> child has one. Then
  \<^verbatim>\<open>fetch_sitemap_urls\<close> returns the stripped \<^verbatim>\<open>loc\<close> texts of the namespaced entries if
  there is such a namespaced entry, and those of the plain entries otherwise; and all it
  has done is the one GET of the document itself: whatever sub-sitemaps the document
  lists, none is fetched and no pause is made.
\<close>

theorem fetch_with_page_urls_never_recurses:
  assumes "web w sitemap_url = GetResponse 200 (Doc root)"
    and "(\<exists>e\<in>set (findall (sm ''url'') root). loc_text (sm ''loc'') e \<noteq> None)
         \<or> (\<exists>e\<in>set (findall_descendants ''url'' root). loc_text ''loc'' e \<noteq> None)"
  shows "fetch_sitemap_urls depth sitemap_url w =
           (if \<exists>e\<in>set (findall (sm ''url'') root). loc_text (sm ''loc'') e \<noteq> None
            then List.map_filter (loc_text (sm ''loc'')) (findall (sm ''url'') root)
            else List.map_filter (loc_text ''loc'') (findall_descendants ''url'' root),
            w\<lparr>trace := trace w @ [Get sitemap_url]\<rparr>)"
proof (cases "\<exists>e\<in>set (findall (sm ''url'') root). loc_text (sm ''loc'') e \<noteq> None")
  case True
  then have "namespaced_urls root \<noteq> []"
    by (simp add: namespaced_urls_def map_filter_none_found)
  with True assms(1) show ?thesis
    by (simp add: fetch_one_document Let_def namespaced_urls_def)
next
  case False
  then have ns: "namespaced_urls root = []"
    by (simp add: namespaced_urls_def map_filter_none_found)
  from False assms(2) have "plain_urls root \<noteq> []"
    by (simp add: plain_urls_def map_filter_none_found)
  with False ns assms(1) show ?thesis
    by (simp add: fetch_one_document Let_def plain_urls_def)
qed

theorem fetch_with_page_urls_never_recurses_witness:
  "web (serving [(''https://e.x/sitemap.xml'', GetResponse 200 (Doc page_and_index))])
       ''https://e.x/sitemap.xml'' = GetResponse 200 (Doc page_and_index)
   \<and> List.map_filter (loc_text (sm ''loc'')) (findall (sm ''sitemap'') page_and_index) =
        [''https://e.x/more.xml'']
   \<and> fetch_sitemap_urls 999 ''https://e.x/sitemap.xml''
        (serving [(''https://e.x/sitemap.xml'', GetResponse 200 (Doc page_and_index))]) =
      ([''https://e.x/a''],
       (serving [(''https://e.x/sitemap.xml'', GetResponse 200 (Doc page_and_index))])
         \<lparr>trace := [Get ''https://e.x/sitemap.xml'']\<rparr>)
   \<and> web (serving [(''https://e.x/sitemap.xml'', GetResponse 200 (Doc plain_page_and_index))])
       ''https://e.x/sitemap.xml'' = GetResponse 200 (Doc plain_page_and_index)
   \<and> List.map_filter (loc_text (sm ''loc''))
        (findall (sm ''sitemap'') plain_page_and_index) = [''https://e.x/more.xml'']
   \<and> fetch_sitemap_urls 999 ''https://e.x/sitemap.xml''
        (serving [(''https://e.x/sitemap.xml'', GetResponse 200 (Doc plain_page_and_index))]) =
      ([''https://e.x/b''],
       (serving [(''https://e.x/sitemap.xml'', GetResponse 200 (Doc plain_page_and_index))])
         \<lparr>trace := [Get ''https://e.x/sitemap.xml'']\<rparr>)"
proof -
  have a: "web (serving [(''https://e.x/sitemap.xml'', GetResponse 200 (Doc page_and_index))])
       ''https://e.x/sitemap.xml'' = GetResponse 200 (Doc page_and_index)"
    by (rule serving_one)
  have found: "(\<exists>e\<in>set (findall (sm ''url'') page_and_index). loc_text (sm ''loc'') e \<noteq> None)
         \<or> (\<exists>e\<in>set (findall_descendants ''url'' page_and_index). loc_text ''loc'' e \<noteq> None)"
    by (simp add: page_and_index_entries(1) mixed_loc)
  have a': "web (serving [(''https://e.x/sitemap.xml'', GetResponse 200 (Doc plain_page_and_index))])
       ''https://e.x/sitemap.xml'' = GetResponse 200 (Doc plain_page_and_index)"
    by (rule serving_one)
  have found': "(\<exists>e\<in>set (findall (sm ''url'') plain_page_and_index).
            loc_text (sm ''loc'') e \<noteq> None)
         \<or> (\<exists>e\<in>set (findall_descendants ''url'' plain_page_and_index).
            loc_text ''loc'' e \<noteq> None)"
    by (simp add: plain_page_and_index_entries plain_loc)
  from fetch_with_page_urls_never_recurses [OF a found, of 999]
  have first: "fetch_sitemap_urls 999 ''https://e.x/sitemap.xml''
        (serving [(''https://e.x/sitemap.xml'', GetResponse 200 (Doc page_and_index))]) =
      ([''https://e.x/a''],
       (serving [(''https://e.x/sitemap.xml'', GetResponse 200 (Doc page_and_index))])
         \<lparr>trace := [Get ''https://e.x/sitemap.xml'']\<rparr>)"
    by (simp add: page_and_index_entries(1) mixed_loc List.map_filter_simps serving_one(2))
  from fetch_with_page_urls_never_recurses [OF a' found', of 999]
  have second: "fetch_sitemap_urls 999 ''https://e.x/sitemap.xml''
        (serving [(''https://e.x/sitemap.xml'', GetResponse 200 (Doc plain_page_and_index))]) =
      ([''https://e.x/b''],
       (serving [(''https://e.x/sitemap.xml'', GetResponse 200 (Doc plain_page_and_index))])
         \<lparr>trace := [Get ''https://e.x/sitemap.xml'']\<rparr>)"
    by (simp add: plain_page_and_index_entries plain_loc List.map_filter_simps serving_one(2))
  from first second a a' page_and_index_entries(2) plain_page_and_index_entries(3)
  show ?thesis by simp
qed

text \<open>
  C10 as stated speaks of every document that contains a page URL entry. A namespaced
  \<^verbatim>\<open>url\<close> entry that is not a child of the root is found by neither pass; next to a
  sub-sitemap entry it does not keep the call from fetching the sub-sitemap, and the
  result is the sub-sitemap's URL, not the document's own.
\<close>

theorem fetch_nested_entry_recurses_counterexample:
  "url_entries nested_page_and_index =
     [Element (sm ''url'') None [Element (sm ''loc'') (Some ''https://e.x/a'') []]]
   \<and> fetch_sitemap_urls 999 ''https://e.x/sitemap.xml''
       (serving [(''https://e.x/sitemap.xml'', GetResponse 200 (Doc nested_page_and_index)),
                 (''https://e.x/more.xml'',
                    GetResponse 200 (Doc (sitemap_of [''https://e.x/d''])))]) =
     ([''https://e.x/d''],
      (serving [(''https://e.x/sitemap.xml'', GetResponse 200 (Doc nested_page_and_index)),
                (''https://e.x/more.xml'',
                   GetResponse 200 (Doc (sitemap_of [''https://e.x/d''])))])
        \<lparr>trace := [Get ''https://e.x/sitemap.xml'', Get ''https://e.x/more.xml'', Sleep 1]\<rparr>)"
proof -
  let ?w = "serving [(''https://e.x/sitemap.xml'', GetResponse 200 (Doc nested_page_and_index)),
                 (''https://e.x/more.xml'',
                    GetResponse 200 (Doc (sitemap_of [''https://e.x/d''])))]"
  have web: "web ?w ''https://e.x/sitemap.xml'' = GetResponse 200 (Doc nested_page_and_index)"
    "web ?w ''https://e.x/more.xml'' = GetResponse 200 (Doc (sitemap_of [''https://e.x/d'']))"
    by (simp_all add: serving_def)
  have sub: "fetch_sitemap_urls 998 ''https://e.x/more.xml''
      (?w\<lparr>trace := [Get ''https://e.x/sitemap.xml'']\<rparr>) =
      ([''https://e.x/d''],
       ?w\<lparr>trace := [Get ''https://e.x/sitemap.xml'', Get ''https://e.x/more.xml'']\<rparr>)"
    using web(2) by (simp add: fetch_one_document Let_def sitemap_of_one)
  have "fetch_sitemap_urls 999 ''https://e.x/sitemap.xml'' ?w =
      ([''https://e.x/d''],
       ?w\<lparr>trace := [Get ''https://e.x/sitemap.xml'', Get ''https://e.x/more.xml'', Sleep 1]\<rparr>)"
    using web(1) sub
    by (simp add: fetch_one_document [of 999] Let_def nested_entries nested_sitemap_loc
        serving_one(2) sleep_def)
  with nested_entries(1) show ?thesis by simp
qed

section \<open>The ledger after a truncated submission\<close>

subsection \<open>From the sitemap to the submission\<close>

lemma load_urls_after_save:
  assumes "files w filename \<noteq> Denied" and "\<forall>u\<in>set urls. one_clean_line u"
  shows "save_urls_to_file urls filename w =
           (True, w\<lparr>files := (files w)(filename := Text (write_lines urls))\<rparr>)"
    and "load_urls_from_file filename
           (w\<lparr>files := (files w)(filename := Text (write_lines urls))\<rparr>) = urls"
  using assms kept_lines_written [OF assms(2)]
  by (simp_all add: save_urls_to_file_def load_urls_from_file_def split: file_state.splits)

lemma main_reaches_steps_6_7:
  assumes "validate_configuration cfg"
    and "fetch_sitemap_urls depth (SITEMAP_URL cfg) w = (all_urls, w1)"
    and "all_urls \<noteq> []"
    and "get_new_urls list_of all_urls (load_submitted_urls w1) = new_urls"
    and "new_urls \<noteq> []"
    and "\<forall>u\<in>set new_urls. one_clean_line u"
    and "files w1 URLS_FILE \<noteq> Denied"
  shows "main depth list_of cfg w =
           snd (main_steps_6_7 depth cfg new_urls
                  (w1\<lparr>files := (files w1)(URLS_FILE := Text (write_lines new_urls))\<rparr>))"
  using assms load_urls_after_save [OF assms(7) assms(6)]
  by (simp add: main_def Let_def)

lemma sitemap_of_urls:
  assumes "\<forall>u\<in>set urls. one_clean_line u"
  shows "namespaced_urls (sitemap_of urls) = urls"
proof -
  have entries: "findall (sm ''url'') (sitemap_of urls) =
      map (\<lambda>u. Element (sm ''url'') None [Element (sm ''loc'') (Some u) []]) urls"
    by (simp add: findall_def sitemap_of_def filter_map comp_def)
  have loc: "loc_text (sm ''loc'') (Element (sm ''url'') None [Element (sm ''loc'') (Some u) []]) =
      Some u" if "one_clean_line u" for u
    using that by (simp add: loc_text_def find_elem_def findall_def one_clean_line_def)
  from assms loc have "List.map_filter (loc_text (sm ''loc''))
      (map (\<lambda>u. Element (sm ''url'') None [Element (sm ''loc'') (Some u) []]) urls) = urls"
    by (induction urls) (simp_all add: List.map_filter_simps)
  with entries show ?thesis by (simp add: namespaced_urls_def)
qed

lemma sample_config_valid: "validate_configuration sample_config"
  by (simp add: validate_configuration_def sample_config_def sublist_code)

subsection \<open>What is recorded\<close>

lemma page_url_clean: "one_clean_line (page_url i)"
proof -
  have "strip (page_url i) = page_url i"
    by (rule strip_unchanged) (simp_all add: page_url_def isspace_def)
  then show ?thesis
    by (simp add: one_clean_line_def) (simp add: page_url_def LF_def CR_def)
qed

lemma page_url_inj: "page_url i = page_url j \<Longrightarrow> i = j"
proof -
  assume "page_url i = page_url j"
  then have "length (page_url i) = length (page_url j)" by simp
  then show "i = j" by (simp add: page_url_def)
qed

lemma page_url_fresh: "page_url n \<notin> set (page_urls n)"
  by (auto simp: page_urls_def dest: page_url_inj)

lemma save_submitted_urls_keeps_posts:
  "posts (snd (save_submitted_urls urls w)) = posts w"
  by (simp add: save_submitted_urls_def posts_def split: file_state.splits)

text \<open>
  With a closed ledger and a list of clean URLs, a submission that is accepted at once
  sends the first 10,000 URLs and then records the whole list.
\<close>

lemma steps_6_7_record_whole_list:
  assumes "urls \<noteq> []"
    and "post_responses w = PostResponse 200 ## rest"
    and "ledger_closed w"
    and "\<forall>u\<in>set urls. one_clean_line u"
  shows "posts (snd (main_steps_6_7 depth cfg urls w)) =
           posts w @ [make_payload cfg (take 10000 urls)]
         \<and> load_submitted_urls (snd (main_steps_6_7 depth cfg urls w)) =
             load_submitted_urls w \<union> set urls"
proof -
  let ?w1 = "w\<lparr>post_responses := rest,
       trace := trace w
         @ concat (replicate 0 [Post (make_payload cfg (take 10000 urls)), Sleep 300])
         @ [Post (make_payload cfg (take 10000 urls))]\<rparr>"
  have shape: "post_responses w = replicate 0 (PostResponse 429) @- (PostResponse 200 ## rest)"
    using assms(2) by simp
  have run: "main_steps_6_7 depth cfg urls w = (True, snd (save_submitted_urls urls ?w1))"
    using main_steps_6_7_run [OF assms(1) _ shape, of depth cfg] by (simp add: Let_def)
  have closed: "ledger_closed ?w1"
    using assms(3) by (simp add: ledger_closed_def)
  have "load_submitted_urls ?w1 = load_submitted_urls w"
    by (simp add: load_submitted_urls_def)
  with load_after_save(2) [OF closed assms(4)]
  have "load_submitted_urls (snd (save_submitted_urls urls ?w1)) =
      load_submitted_urls w \<union> set urls"
    by simp
  moreover have "posts (snd (save_submitted_urls urls ?w1)) =
      posts w @ [make_payload cfg (take 10000 urls)]"
    by (simp add: save_submitted_urls_keeps_posts) (simp add: posts_def posted_append)
  ultimately show ?thesis using run by simp
qed

text \<open>
  C1. The claim does not hold of the script. \<^verbatim>\<open>submit_to_indexnow\<close> cuts its own copy of
  the list, and \<^verbatim>\<open>main\<close> then hands the whole list to \<^verbatim>\<open>save_submitted_urls\<close>. On a
  first run against a sitemap of 10,001 pages, with an endpoint that answers 200, \<^verbatim>\<open>main\<close>
  sends one request with the first 10,000 URLs and leaves a ledger of all 10,001: the
  last page is recorded as submitted although no request carried it.
\<close>

theorem main_records_urls_never_sent:
  "posts (main depth (listed_as (page_urls 10001)) sample_config big_site) =
     [make_payload sample_config (page_urls 10000)]
   \<and> urlList (make_payload sample_config (page_urls 10000)) = page_urls 10000
   \<and> load_submitted_urls (main depth (listed_as (page_urls 10001)) sample_config big_site) =
     set (page_urls 10001)
   \<and> page_url 10000 \<in> set (page_urls 10001)
   \<and> page_url 10000 \<notin> set (page_urls 10000)"
proof -
  let ?urls = "page_urls 10001"
  let ?w1 = "big_site\<lparr>trace := trace big_site @ [Get (SITEMAP_URL sample_config)]\<rparr>"
  let ?w2 = "?w1\<lparr>files := (files ?w1)(URLS_FILE := Text (write_lines ?urls))\<rparr>"
  have nonempty: "?urls \<noteq> []"
    using length_page_urls [of 10001] by auto
  have clean: "\<forall>u\<in>set ?urls. one_clean_line u"
    by (simp add: page_urls_def page_url_clean)
  have served: "web big_site (SITEMAP_URL sample_config) = GetResponse 200 (Doc (sitemap_of ?urls))"
    by (simp add: big_site_def serving_def)
  have fetched: "fetch_sitemap_urls depth (SITEMAP_URL sample_config) big_site = (?urls, ?w1)"
    using served nonempty sitemap_of_urls [OF clean]
    by (simp add: fetch_one_document Let_def)
  have no_files: "files ?w1 = (\<lambda>name. Missing)"
    by (simp add: big_site_def serving_def fresh_world_def)
  then have ledger_empty: "load_submitted_urls ?w1 = {}"
    by (simp add: load_submitted_urls_def)
  have new: "get_new_urls (listed_as ?urls) ?urls (load_submitted_urls ?w1) = ?urls"
    by (simp add: get_new_urls_def listed_as_def ledger_empty)
  have staged: "files ?w1 URLS_FILE \<noteq> Denied"
    by (simp add: no_files)
  have main_eq: "main depth (listed_as ?urls) sample_config big_site =
      snd (main_steps_6_7 depth sample_config ?urls ?w2)"
    by (rule main_reaches_steps_6_7 [OF sample_config_valid fetched nonempty new nonempty clean staged])
  have answers: "post_responses ?w2 = PostResponse 200 ## sconst PostTimeout"
    by (simp add: big_site_def)
  have closed: "ledger_closed ?w2"
    by (simp add: ledger_closed_def no_files URLS_FILE_def SUBMITTED_URLS_FILE_def)
  have before: "load_submitted_urls ?w2 = {}"
    by (simp add: load_submitted_urls_def no_files URLS_FILE_def SUBMITTED_URLS_FILE_def)
  have sent_before: "posts ?w2 = []"
    by (simp add: posts_def big_site_def serving_def fresh_world_def)
  note recorded = steps_6_7_record_whole_list [OF nonempty answers closed clean, of depth sample_config]
  have last_in: "page_url 10000 \<in> set ?urls"
    by (simp add: page_urls_def)
  have pinned: "urlList (make_payload sample_config (page_urls 10000)) = page_urls 10000"
    by (simp add: make_payload_def)
  from main_eq recorded before sent_before last_in pinned page_url_fresh [of 10000] show ?thesis
    by (simp add: take_page_urls)
qed

end
